theory Spec2Isabelle
  imports Complex_Main "HOL-Library.AList"
begin

section \<open>BioRoute Builder: the calculation engine\<close>

text \<open>
  A shallow embedding of \<^verbatim>\<open>backend/app/services/calculation_engine.py\<close> and of the
  \<^verbatim>\<open>validate_route\<close> endpoint of \<^verbatim>\<open>backend/main.py\<close>.

  Numbers. Python's \<^verbatim>\<open>int\<close> and \<^verbatim>\<open>float\<close> values are embedded as exact reals: every
  \<^verbatim>\<open>+\<close>, \<^verbatim>\<open>*\<close>, \<^verbatim>\<open>/\<close> of the source is the exact operation. The rounding of IEEE-754
  binary64 arithmetic, overflow, infinities and NaN are outside this development, so an
  equation proved here holds of the running program up to floating-point rounding.

  Objects. \<^verbatim>\<open>StreamProperties\<close> is a mutable dataclass and the engine stores references
  to its instances in the \<^verbatim>\<open>streams\<close> dictionary, so stream objects live in an explicit
  store and the rules pass addresses.

  Dictionaries that are only looked up (\<^verbatim>\<open>params\<close>, \<^verbatim>\<open>defaults\<close>, the technology
  database) are maps; dictionaries that are built and iterated (\<^verbatim>\<open>streams\<close>,
  \<^verbatim>\<open>node_results\<close>, result records) are association lists in insertion order, updated
  with \<^const>\<open>AList.update\<close> (an existing key keeps its place, a new key goes last).
  Parameter and default values are numbers, as \<^verbatim>\<open>schemas.py\<close> declares them.
\<close>

subsection \<open>Errors\<close>

datatype py_error =
    ValueError_cycles            \<comment> \<open>\<^verbatim>\<open>ValueError("Route contains cycles - invalid configuration")\<close>\<close>
  | ValueError_tech_not_found string  \<comment> \<open>\<^verbatim>\<open>ValueError("Technology '...' not found in database")\<close>\<close>
  | KeyError string
  | ZeroDivisionError
  | TypeError
  | StopIteration
  | RuntimeError_graph_changed   \<comment> \<open>networkx: \<^verbatim>\<open>RuntimeError("Graph changed during iteration")\<close>\<close>
  | NetworkXUnfeasible

subsection \<open>Streams\<close>

record StreamProperties =
  mass_flow :: real
  volume_flow :: real
  energy_content :: real
  methane_content :: real
  cod :: real
  vs_content :: real
  temperature :: real
  pressure :: real

text \<open>The dataclass defaults: \<^verbatim>\<open>StreamProperties()\<close>.\<close>

definition StreamProperties_default :: StreamProperties where
  "StreamProperties_default =
     \<lparr>mass_flow = 0, volume_flow = 0, energy_content = 0, methane_content = 0,
      cod = 0, vs_content = 0, temperature = 35, pressure = 1\<rparr>"

text \<open>\<^verbatim>\<open>StreamProperties.__add__\<close>.\<close>

definition StreamProperties_add :: "StreamProperties \<Rightarrow> StreamProperties \<Rightarrow> StreamProperties" where
  "StreamProperties_add self other =
     \<lparr>mass_flow = mass_flow self + mass_flow other,
      volume_flow = volume_flow self + volume_flow other,
      energy_content = energy_content self + energy_content other,
      methane_content = methane_content self + methane_content other,
      cod = cod self + cod other,
      vs_content = vs_content self + vs_content other,
      temperature = (temperature self + temperature other) / 2,
      pressure = min (pressure self) (pressure other)\<rparr>"

subsection \<open>The object store\<close>

type_synonym ref = nat
type_synonym heap = "StreamProperties list"

text \<open>Constructing a \<^verbatim>\<open>StreamProperties\<close> object: a fresh address, the old objects untouched.\<close>

definition new_stream :: "heap \<Rightarrow> StreamProperties \<Rightarrow> ref \<times> heap" where
  "new_stream h s = (length h, h @ [s])"

subsection \<open>Technology profiles, parameters, result records\<close>

record param_spec =
  p_key :: string
  p_default_value :: real

record technology =
  t_id :: string
  t_category :: string
  t_name :: string
  t_accepts :: "string list"
  t_outputs :: "string list"
  t_parameters :: "param_spec list"
  t_defaults :: "string \<rightharpoonup> real"

type_synonym params = "string \<rightharpoonup> real"
type_synonym tech_db = "string \<rightharpoonup> technology"

datatype pyval = Num real | Str string

type_synonym results = "(string \<times> pyval) list"

text \<open>\<^verbatim>\<open>d.get(key, default)\<close>.\<close>

definition dict_get :: "('k \<rightharpoonup> 'v) \<Rightarrow> 'k \<Rightarrow> 'v \<Rightarrow> 'v" where
  "dict_get d k dflt = (case d k of None \<Rightarrow> dflt | Some v \<Rightarrow> v)"

text \<open>
  \<^verbatim>\<open>round(x, ndigits)\<close> in exact arithmetic: the nearest multiple of \<open>10 ^ -ndigits\<close>,
  a tie going to the even one.
\<close>

definition py_round :: "real \<Rightarrow> nat \<Rightarrow> real" where
  "py_round x ndigits =
     (let y = x * 10 ^ ndigits; f = \<lfloor>y\<rfloor> in
      (if y - of_int f < 1 / 2 then of_int f
       else if 1 / 2 < y - of_int f then of_int f + 1
       else if even f then of_int f else of_int f + 1) / 10 ^ ndigits)"

subsection \<open>Summing the inbound streams\<close>

text \<open>
  \<^verbatim>\<open>_sum_inputs\<close>: an empty list gives a new default object; otherwise the result starts
  as \<^verbatim>\<open>inputs[0]\<close> itself (the same object, not a copy) and each further input replaces
  it by the new object that \<^verbatim>\<open>__add__\<close> builds.
\<close>

fun sum_loop :: "ref \<Rightarrow> ref list \<Rightarrow> heap \<Rightarrow> ref \<times> heap" where
  "sum_loop result [] h = (result, h)"
| "sum_loop result (inp # rest) h =
     (case new_stream h (StreamProperties_add (h ! result) (h ! inp)) of
        (r, h') \<Rightarrow> sum_loop r rest h')"

definition sum_inputs :: "ref list \<Rightarrow> heap \<Rightarrow> ref \<times> heap" where
  "sum_inputs inputs h =
     (case inputs of
        [] \<Rightarrow> new_stream h StreamProperties_default
      | r # rest \<Rightarrow> sum_loop r rest h)"

subsection \<open>The category rules\<close>

type_synonym rule_result = "py_error + (ref \<times> results \<times> heap)"

text \<open>The unit string \<^verbatim>\<open>'m\<^sup>3/day'\<close> of the source, in UTF-8.\<close>

definition unit_m3_day :: string where
  "unit_m3_day = ''m'' @ [CHR 0xC2, CHR 0xB3] @ ''/day''"

definition calc_feedstock :: "technology \<Rightarrow> params \<Rightarrow> heap \<Rightarrow> rule_result" where
  "calc_feedstock tech params h =
     (let quantity = dict_get params ''quantity''
                       (case t_parameters tech of [] \<Rightarrow> 100 | p # _ \<Rightarrow> p_default_value p);
          defaults = t_defaults tech
      in if t_id tech \<in> set [''vinasse'', ''wash_water''] then
           (let cod_v = quantity * dict_get defaults ''cod'' 25;
                stream = StreamProperties_default
                           \<lparr>volume_flow := quantity, cod := cod_v, vs_content := cod_v * 0.7\<rparr>;
                res = [(''input_quantity'', Num quantity),
                       (''input_unit'', Str unit_m3_day),
                       (''cod_total'', Num cod_v),
                       (''vs_available'', Num (vs_content stream))]
            in case new_stream h stream of (r, h') \<Rightarrow> Inr (r, res, h'))
         else
           (let moisture = dict_get defaults ''moisture'' 50 / 100;
                vs_fraction = dict_get defaults ''vs'' 85 / 100;
                lhv = dict_get defaults ''lhv'' 7.5;
                dry_mass = quantity * (1 - moisture);
                vs_mass = dry_mass * vs_fraction * 1000;
                energy = quantity * 1000 * (1 - moisture) * lhv;
                stream = StreamProperties_default
                           \<lparr>mass_flow := quantity * 1000, vs_content := vs_mass,
                            energy_content := energy\<rparr>;
                res = [(''input_quantity'', Num quantity),
                       (''input_unit'', Str ''t/day''),
                       (''dry_mass'', Num dry_mass),
                       (''vs_available'', Num vs_mass),
                       (''energy_available_mj'', Num energy)]
            in case new_stream h stream of (r, h') \<Rightarrow> Inr (r, res, h')))"

text \<open>
  \<^verbatim>\<open>_calc_pretreatment\<close>: \<^verbatim>\<open>output_stream = combined\<close> binds a second name to the object
  \<^verbatim>\<open>_sum_inputs\<close> returned, and \<^verbatim>\<open>output_stream.vs_content *= ...\<close> writes into that
  object; \<^verbatim>\<open>combined.vs_content\<close> read afterwards is the written value.
\<close>

definition calc_pretreatment :: "technology \<Rightarrow> params \<Rightarrow> ref list \<Rightarrow> heap \<Rightarrow> rule_result" where
  "calc_pretreatment tech params inputs h =
     (case sum_inputs inputs h of (combined, h1) \<Rightarrow>
        (let biogas_increase = dict_get (t_defaults tech) ''biogas_increase'' 15 / 100;
             energy_use = dict_get (t_defaults tech) ''energy_use'' 0.3;
             output_stream = combined;
             h2 = h1[output_stream :=
                       (h1 ! output_stream)
                         \<lparr>vs_content := vs_content (h1 ! output_stream) * (1 + biogas_increase)\<rparr>];
             parasitic_energy =
               (if t_id tech = ''thermal_hydrolysis'' then vs_content (h2 ! combined) * energy_use
                else if t_id tech = ''mechanical_prep''
                  then (mass_flow (h2 ! combined) / 1000) * energy_use
                else 0);
             res = [(''biogas_increase_percent'', Num (biogas_increase * 100)),
                    (''parasitic_energy_kwh'', Num parasitic_energy),
                    (''effective_vs_output'', Num (vs_content (h2 ! output_stream)))]
         in Inr (output_stream, res, h2)))"

definition calc_digester :: "technology \<Rightarrow> params \<Rightarrow> ref list \<Rightarrow> heap \<Rightarrow> rule_result" where
  "calc_digester tech params inputs h =
     (case sum_inputs inputs h of (combined, h1) \<Rightarrow>
        (let efficiency0 = dict_get params ''efficiency''
                             (dict_get (t_defaults tech) ''efficiency'' 0.70);
             efficiency = (if efficiency0 > 1 then efficiency0 / 100 else efficiency0);
             ch4_content = dict_get (t_defaults tech) ''ch4_content'' 0.60
         in if cod (h1 ! combined) > 0 \<and> ch4_content = 0 then Inl ZeroDivisionError
            else
              (let ch4_production =
                     (if cod (h1 ! combined) > 0 then cod (h1 ! combined) * 0.35 * efficiency
                      else (vs_content (h1 ! combined) * 0.40 * efficiency) * ch4_content);
                   biogas_production =
                     (if cod (h1 ! combined) > 0 then ch4_production / ch4_content
                      else vs_content (h1 ! combined) * 0.40 * efficiency);
                   energy_output_mj = ch4_production * 35.8;
                   energy_output_kwh = energy_output_mj / 3.6;
                   stream = StreamProperties_default
                              \<lparr>volume_flow := biogas_production,
                               methane_content := ch4_production,
                               energy_content := energy_output_mj\<rparr>;
                   res = [(''biogas_nm3_day'', Num (py_round biogas_production 1)),
                          (''methane_nm3_day'', Num (py_round ch4_production 1)),
                          (''methane_content_percent'', Num (py_round (ch4_content * 100) 1)),
                          (''conversion_efficiency'', Num (py_round (efficiency * 100) 1)),
                          (''energy_output_mj_day'', Num (py_round energy_output_mj 0)),
                          (''energy_output_kwh_day'', Num (py_round energy_output_kwh 0)),
                          (''hrt_days'', Num (dict_get (t_defaults tech) ''hrt'' 20)),
                          (''olr'', Num (dict_get (t_defaults tech) ''olr'' 3))]
               in case new_stream h1 stream of (r, h2) \<Rightarrow> Inr (r, res, h2))))"

definition calc_upgrading :: "technology \<Rightarrow> params \<Rightarrow> ref list \<Rightarrow> heap \<Rightarrow> rule_result" where
  "calc_upgrading tech params inputs h =
     (case sum_inputs inputs h of (combined, h1) \<Rightarrow>
        (let defaults = t_defaults tech;
             recovery0 = dict_get params ''recovery'' (dict_get defaults ''recovery'' 0.96);
             recovery = (if recovery0 > 1 then recovery0 / 100 else recovery0);
             energy_use = dict_get defaults ''energy_use'' 0.25;
             biomethane = methane_content (h1 ! combined) * recovery;
             ch4_purity = dict_get defaults ''ch4_purity'' 0.97;
             parasitic_load = volume_flow (h1 ! combined) * energy_use;
             co2_flow = volume_flow (h1 ! combined) * (1 - dict_get defaults ''ch4_content'' 0.60);
             stream = StreamProperties_default
                        \<lparr>volume_flow := biomethane, methane_content := biomethane,
                         energy_content := biomethane * 35.8\<rparr>;
             res = [(''biogas_input_nm3_day'', Num (py_round (volume_flow (h1 ! combined)) 1)),
                    (''biomethane_nm3_day'', Num (py_round biomethane 1)),
                    (''methane_purity_percent'', Num (py_round (ch4_purity * 100) 1)),
                    (''methane_recovery_percent'', Num (py_round (recovery * 100) 1)),
                    (''methane_loss_nm3_day'',
                       Num (py_round (methane_content (h1 ! combined) - biomethane) 1)),
                    (''parasitic_energy_kwh_day'', Num (py_round parasitic_load 0)),
                    (''co2_separated_nm3_day'', Num (py_round co2_flow 1))]
         in case new_stream h1 stream of (r, h2) \<Rightarrow> Inr (r, res, h2)))"

definition calc_enduse :: "technology \<Rightarrow> params \<Rightarrow> ref list \<Rightarrow> heap \<Rightarrow> rule_result" where
  "calc_enduse tech params inputs h =
     (case sum_inputs inputs h of (combined, h1) \<Rightarrow>
        (let defaults = t_defaults tech;
             res =
              (if t_id tech \<in> set [''ice_cogen'', ''gas_turbine'', ''microturbine'', ''fuel_cell'']
               then
                 (let elec_eff0 = dict_get params ''elec_efficiency''
                                    (dict_get defaults ''elec_eff'' 0.38);
                      therm_eff0 = dict_get params ''therm_efficiency''
                                     (dict_get defaults ''therm_eff'' 0.45);
                      elec_eff = (if elec_eff0 > 1 then elec_eff0 / 100 else elec_eff0);
                      therm_eff = (if therm_eff0 > 1 then therm_eff0 / 100 else therm_eff0);
                      energy_input_kwh = methane_content (h1 ! combined) * 9.97;
                      electricity_kwh = energy_input_kwh * elec_eff;
                      thermal_kwh = energy_input_kwh * therm_eff;
                      elec_price = dict_get params ''elec_price'' 350;
                      daily_revenue = (electricity_kwh / 1000) * elec_price;
                      annual_revenue = daily_revenue * 330
                  in [(''methane_input_nm3_day'', Num (py_round (methane_content (h1 ! combined)) 1)),
                      (''energy_input_kwh_day'', Num (py_round energy_input_kwh 0)),
                      (''electricity_kwh_day'', Num (py_round electricity_kwh 0)),
                      (''electricity_mwh_year'', Num (py_round (electricity_kwh * 330 / 1000) 0)),
                      (''thermal_kwh_day'', Num (py_round thermal_kwh 0)),
                      (''electrical_efficiency_percent'', Num (py_round (elec_eff * 100) 1)),
                      (''thermal_efficiency_percent'', Num (py_round (therm_eff * 100) 1)),
                      (''total_efficiency_percent'', Num (py_round ((elec_eff + therm_eff) * 100) 1)),
                      (''daily_revenue_brl'', Num (py_round daily_revenue 2)),
                      (''annual_revenue_brl'', Num (py_round annual_revenue 0))])
               else if t_id tech \<in> set [''biomethane_gnv'', ''biomethane_grid''] then
                 (let price = dict_get params ''price'' (dict_get defaults ''price'' 3.50);
                      daily_revenue = methane_content (h1 ! combined) * price;
                      annual_revenue = daily_revenue * 330
                  in [(''biomethane_nm3_day'', Num (py_round (methane_content (h1 ! combined)) 1)),
                      (''biomethane_nm3_year'',
                         Num (py_round (methane_content (h1 ! combined) * 330) 0)),
                      (''price_per_nm3'', Num price),
                      (''daily_revenue_brl'', Num (py_round daily_revenue 2)),
                      (''annual_revenue_brl'', Num (py_round annual_revenue 0))])
               else if t_id tech = ''boiler'' then
                 (let therm_eff0 = dict_get params ''therm_efficiency''
                                     (dict_get defaults ''therm_eff'' 0.85);
                      therm_eff = (if therm_eff0 > 1 then therm_eff0 / 100 else therm_eff0);
                      thermal_kwh = (energy_content (h1 ! combined) / 3.6) * therm_eff
                  in [(''methane_input_nm3_day'', Num (py_round (methane_content (h1 ! combined)) 1)),
                      (''thermal_kwh_day'', Num (py_round thermal_kwh 0)),
                      (''thermal_efficiency_percent'', Num (py_round (therm_eff * 100) 1))])
               else if t_id tech = ''flare'' then
                 (let destruction_eff = dict_get defaults ''destruction_efficiency'' 0.99;
                      co2_reduction = methane_content (h1 ! combined) * 21 * destruction_eff
                  in [(''methane_flared_nm3_day'', Num (py_round (methane_content (h1 ! combined)) 1)),
                      (''destruction_efficiency_percent'', Num (py_round (destruction_eff * 100) 1)),
                      (''co2eq_avoided_kg_day'', Num (py_round co2_reduction 0))])
               else [])
         in case new_stream h1 StreamProperties_default of (r, h2) \<Rightarrow> Inr (r, res, h2)))"

definition calc_byproduct :: "technology \<Rightarrow> params \<Rightarrow> ref list \<Rightarrow> heap \<Rightarrow> rule_result" where
  "calc_byproduct tech params inputs h =
     (case sum_inputs inputs h of (combined, h1) \<Rightarrow>
        (let res = [(''tech_name'', Str (t_name tech)),
                    (''value_per_unit'', Num (dict_get (t_defaults tech) ''value'' 0))]
         in case new_stream h1 StreamProperties_default of (r, h2) \<Rightarrow> Inr (r, res, h2)))"

text \<open>\<^verbatim>\<open>_calculate_node\<close>: dispatch on the category string, pass-through otherwise.\<close>

definition calculate_node :: "technology \<Rightarrow> params \<Rightarrow> ref list \<Rightarrow> heap \<Rightarrow> rule_result" where
  "calculate_node tech params inputs h =
     (let category = t_category tech in
      if category = ''feedstock'' then calc_feedstock tech params h
      else if category = ''pretreatment'' then calc_pretreatment tech params inputs h
      else if category = ''digester'' then calc_digester tech params inputs h
      else if category = ''upgrading'' then calc_upgrading tech params inputs h
      else if category = ''enduse'' then calc_enduse tech params inputs h
      else if category = ''byproduct'' then calc_byproduct tech params inputs h
      else (case sum_inputs inputs h of (r, h') \<Rightarrow> Inr (r, [], h')))"

subsection \<open>The request\<close>

text \<open>
  \<^verbatim>\<open>NodeInput\<close> and \<^verbatim>\<open>EdgeInput\<close> of \<^verbatim>\<open>schemas.py\<close>, with the fields the engine reads
  (\<^verbatim>\<open>position\<close> and the two handles are never read).
\<close>

record NodeInput =
  node_id :: string
  tech_id :: string
  parameters :: params

record EdgeInput =
  source :: string
  target :: string

subsection \<open>The graph: \<^verbatim>\<open>networkx.DiGraph\<close>\<close>

text \<open>
  networkx is a library the engine calls; the part it uses is modelled after the
  library's implementation. A \<^verbatim>\<open>DiGraph\<close> keeps its nodes in a dictionary (insertion
  order), each with an attribute dictionary, and per node the dictionaries of its
  successors and predecessors, again in insertion order. Here: the node ids in insertion
  order, the attributes of the nodes that have any (\<open>None\<close> is the empty attribute
  dictionary), and the edges, each once, in insertion order. \<^verbatim>\<open>add_node\<close> on a known id
  only updates its attributes; \<^verbatim>\<open>add_edge\<close> first adds an endpoint it does not know, with
  no attributes, and adding a known edge changes nothing.
\<close>

record node_attrs =
  attr_tech_id :: string
  attr_parameters :: params

record DiGraph =
  g_nodes :: "string list"
  g_attr :: "string \<rightharpoonup> node_attrs"
  g_edges :: "(string \<times> string) list"

definition insert_new :: "'a \<Rightarrow> 'a list \<Rightarrow> 'a list" where
  "insert_new x xs = (if x \<in> set xs then xs else xs @ [x])"

definition empty_graph :: DiGraph where
  "empty_graph = \<lparr>g_nodes = [], g_attr = Map.empty, g_edges = []\<rparr>"

definition add_node :: "DiGraph \<Rightarrow> string \<Rightarrow> node_attrs \<Rightarrow> DiGraph" where
  "add_node g n a = g\<lparr>g_nodes := insert_new n (g_nodes g), g_attr := (g_attr g)(n \<mapsto> a)\<rparr>"

definition add_edge :: "DiGraph \<Rightarrow> string \<Rightarrow> string \<Rightarrow> DiGraph" where
  "add_edge g u v =
     g\<lparr>g_nodes := insert_new v (insert_new u (g_nodes g)),
       g_edges := insert_new (u, v) (g_edges g)\<rparr>"

definition successors :: "DiGraph \<Rightarrow> string \<Rightarrow> string list" where
  "successors g n = map snd (filter (\<lambda>e. fst e = n) (g_edges g))"

definition predecessors :: "DiGraph \<Rightarrow> string \<Rightarrow> string list" where
  "predecessors g n = map fst (filter (\<lambda>e. snd e = n) (g_edges g))"

definition in_degree :: "DiGraph \<Rightarrow> string \<Rightarrow> nat" where
  "in_degree g n = length (predecessors g n)"

subsection \<open>\<^verbatim>\<open>networkx.topological_sort\<close>\<close>

text \<open>
  \<^verbatim>\<open>topological_generations\<close> is Kahn's algorithm by generations. \<^verbatim>\<open>indegree_map\<close> holds
  the nodes of positive in-degree, \<^verbatim>\<open>zero_indegree\<close> the current generation. For every
  node of the generation and every successor of it the successor's count goes down by
  one; a successor whose count reaches zero joins the next generation and leaves the
  dictionary. A successor that is not in the dictionary is a \<^verbatim>\<open>KeyError\<close>, which the
  library turns into \<^verbatim>\<open>RuntimeError\<close>. When no generation is left and the dictionary is
  not empty, the library raises \<^verbatim>\<open>NetworkXUnfeasible\<close>.
\<close>

type_synonym indegree_map = "(string \<times> int) list"

fun relax_child ::
  "indegree_map \<times> string list \<Rightarrow> string \<Rightarrow> py_error + (indegree_map \<times> string list)" where
  "relax_child (im, zero_indegree) child =
     (case map_of im child of
        None \<Rightarrow> Inl RuntimeError_graph_changed
      | Some d \<Rightarrow>
          if d - 1 = 0 then Inr (AList.delete child im, zero_indegree @ [child])
          else Inr (AList.update child (d - 1) im, zero_indegree))"

fun relax_children ::
  "indegree_map \<times> string list \<Rightarrow> string list \<Rightarrow> py_error + (indegree_map \<times> string list)" where
  "relax_children st [] = Inr st"
| "relax_children st (child # rest) =
     (case relax_child st child of
        Inl e \<Rightarrow> Inl e
      | Inr st' \<Rightarrow> relax_children st' rest)"

fun process_generation ::
  "DiGraph \<Rightarrow> indegree_map \<times> string list \<Rightarrow> string list \<Rightarrow>
     py_error + (indegree_map \<times> string list)" where
  "process_generation g st [] = Inr st"
| "process_generation g st (node # rest) =
     (if node \<notin> set (g_nodes g) then Inl RuntimeError_graph_changed
      else case relax_children st (successors g node) of
             Inl e \<Rightarrow> Inl e
           | Inr st' \<Rightarrow> process_generation g st' rest)"

text \<open>
  The \<^verbatim>\<open>while zero_indegree:\<close> loop; \<open>gens\<close> collects the generations yielded so far.
\<close>

function generations_loop ::
  "DiGraph \<Rightarrow> indegree_map \<Rightarrow> string list \<Rightarrow> string list list \<Rightarrow>
     py_error + (string list list \<times> indegree_map)" where
  "generations_loop g im zero_indegree gens =
     (if zero_indegree = [] then Inr (gens, im)
      else case process_generation g (im, []) zero_indegree of
             Inl e \<Rightarrow> Inl e
           | Inr (im', zero') \<Rightarrow> generations_loop g im' zero' (gens @ [zero_indegree]))"
  by pat_completeness auto

text \<open>
  The loop ends: a node enters the next generation only by leaving the dictionary, so with
  every non-empty next generation the dictionary shrinks.
\<close>

lemma length_update_known:
  "k \<in> fst ` set al \<Longrightarrow> length (AList.update k v al) = length al"
  using arg_cong [OF AList.update_keys [of k v al], of length] by simp

lemma relax_child_length:
  "relax_child (im, z) c = Inr (im', z') \<Longrightarrow> length im' + length z' \<le> length im + length z"
proof -
  assume a: "relax_child (im, z) c = Inr (im', z')"
  then obtain d where d: "map_of im c = Some d" by (auto split: option.splits)
  then have mem: "c \<in> fst ` set im" by (force dest: map_of_SomeD)
  show ?thesis
  proof (cases "d - 1 = 0")
    case True
    then have "im' = AList.delete c im" "z' = z @ [c]" using a d by auto
    moreover have "length (AList.delete c im) < length im"
      using mem by (auto simp: AList.delete_eq intro!: length_filter_less)
    ultimately show ?thesis by simp
  next
    case False
    then have "im' = AList.update c (d - 1) im" "z' = z" using a d by auto
    then show ?thesis using mem by (simp add: length_update_known)
  qed
qed

lemma relax_children_length:
  "relax_children st cs = Inr st' \<Longrightarrow>
   length (fst st') + length (snd st') \<le> length (fst st) + length (snd st)"
proof (induction cs arbitrary: st)
  case Nil
  then show ?case by simp
next
  case (Cons c cs)
  then obtain st1 where s1: "relax_child st c = Inr st1" and s2: "relax_children st1 cs = Inr st'"
    by (auto split: sum.splits)
  from s1 have "length (fst st1) + length (snd st1) \<le> length (fst st) + length (snd st)"
    using relax_child_length [of "fst st" "snd st" c "fst st1" "snd st1"] by simp
  with Cons.IH [OF s2] show ?case by simp
qed

lemma process_generation_length:
  "process_generation g st ns = Inr st' \<Longrightarrow>
   length (fst st') + length (snd st') \<le> length (fst st) + length (snd st)"
proof (induction ns arbitrary: st)
  case Nil
  then show ?case by simp
next
  case (Cons n ns)
  then obtain st1 where s1: "relax_children st (successors g n) = Inr st1"
    and s2: "process_generation g st1 ns = Inr st'"
    by (auto split: sum.splits if_splits)
  from relax_children_length [OF s1] Cons.IH [OF s2] show ?case by simp
qed

termination generations_loop
proof (relation "measure (\<lambda>(g, im, zero, gens). length im + (if zero = [] then 0 else 1))")
  show "wf (measure (\<lambda>(g, im, zero, gens). length im + (if zero = [] then 0 else 1)))"
    by simp
next
  fix g :: DiGraph and im :: indegree_map and zero_indegree :: "string list"
    and gens :: "string list list" and x2 :: "indegree_map \<times> string list"
    and im' :: indegree_map and zero' :: "string list"
  assume nz: "zero_indegree \<noteq> []"
    and pg: "process_generation g (im, []) zero_indegree = Inr x2"
    and x2: "(im', zero') = x2"
  from process_generation_length [OF pg] x2 have "length im' + length zero' \<le> length im"
    by auto
  moreover have "zero' \<noteq> [] \<Longrightarrow> 1 \<le> length zero'" by (cases zero') auto
  ultimately show "((g, im', zero', gens @ [zero_indegree]), (g, im, zero_indegree, gens))
      \<in> measure (\<lambda>(g, im, zero, gens). length im + (if zero = [] then 0 else 1))"
    using nz by auto
qed

definition topological_generations :: "DiGraph \<Rightarrow> py_error + string list list" where
  "topological_generations g =
     (let indegree_map = map (\<lambda>v. (v, int (in_degree g v)))
                           (filter (\<lambda>v. in_degree g v > 0) (g_nodes g));
          zero_indegree = filter (\<lambda>v. in_degree g v = 0) (g_nodes g)
      in case generations_loop g indegree_map zero_indegree [] of
           Inl e \<Rightarrow> Inl e
         | Inr (gens, im) \<Rightarrow> if im \<noteq> [] then Inl NetworkXUnfeasible else Inr gens)"

definition topological_sort :: "DiGraph \<Rightarrow> py_error + string list" where
  "topological_sort g =
     (case topological_generations g of Inl e \<Rightarrow> Inl e | Inr gens \<Rightarrow> Inr (concat gens))"

text \<open>
  \<^verbatim>\<open>is_directed_acyclic_graph\<close> runs the sort and catches \<^verbatim>\<open>NetworkXUnfeasible\<close> only.
\<close>

definition has_cycle :: "DiGraph \<Rightarrow> py_error + bool" where
  "has_cycle g =
     (case topological_sort g of
        Inl e \<Rightarrow> if e = NetworkXUnfeasible then Inr True else Inl e
      | Inr order \<Rightarrow> Inr False)"

definition is_directed_acyclic_graph :: "DiGraph \<Rightarrow> py_error + bool" where
  "is_directed_acyclic_graph g =
     (case has_cycle g of Inl e \<Rightarrow> Inl e | Inr c \<Rightarrow> Inr (\<not> c))"

subsection \<open>\<^verbatim>\<open>build_graph\<close>\<close>

definition build_graph :: "NodeInput list \<Rightarrow> EdgeInput list \<Rightarrow> py_error + DiGraph" where
  "build_graph nodes edges =
     (let g1 = foldl (\<lambda>g node. add_node g (node_id node)
                        \<lparr>attr_tech_id = tech_id node, attr_parameters = parameters node\<rparr>)
                 empty_graph nodes;
          g2 = foldl (\<lambda>g edge. add_edge g (source edge) (target edge)) g1 edges
      in case is_directed_acyclic_graph g2 of
           Inl e \<Rightarrow> Inl e
         | Inr dag \<Rightarrow> if \<not> dag then Inl ValueError_cycles else Inr g2)"

subsection \<open>\<^verbatim>\<open>calculate_route\<close>\<close>

text \<open>
  The loop state: the \<^verbatim>\<open>streams\<close> dictionary (edge key to stream object), the
  \<^verbatim>\<open>node_results\<close> dictionary and the object store.
\<close>

record calc_state =
  streams :: "(string \<times> ref) list"
  node_results :: "(string \<times> results) list"
  objects :: heap

definition initial_state :: calc_state where
  "initial_state = \<lparr>streams = [], node_results = [], objects = []\<rparr>"

text \<open>The key \<^verbatim>\<open>f"{p}->{node_id}"\<close>.\<close>

definition edge_key :: "string \<Rightarrow> string \<Rightarrow> string" where
  "edge_key p n = p @ ''->'' @ n"

text \<open>
  \<^verbatim>\<open>[streams.get(f"{p}->{node_id}", StreamProperties()) for p in predecessors]\<close>: the
  default argument is built for every predecessor, and used when the key is missing.
\<close>

fun gather_inputs ::
  "(string \<times> ref) list \<Rightarrow> string \<Rightarrow> string list \<Rightarrow> heap \<Rightarrow> ref list \<times> heap" where
  "gather_inputs strs n [] h = ([], h)"
| "gather_inputs strs n (p # ps) h =
     (case new_stream h StreamProperties_default of
        (d, h1) \<Rightarrow>
          (case gather_inputs strs n ps h1 of
             (rs, h2) \<Rightarrow>
               ((case map_of strs (edge_key p n) of None \<Rightarrow> d | Some r \<Rightarrow> r) # rs, h2)))"

text \<open>
  One pass of the loop body. A node that \<^verbatim>\<open>add_edge\<close> created has an empty attribute
  dictionary, so \<^verbatim>\<open>node_data['tech_id']\<close> is a \<^verbatim>\<open>KeyError\<close>.
\<close>

definition process_node :: "tech_db \<Rightarrow> DiGraph \<Rightarrow> calc_state \<Rightarrow> string \<Rightarrow> py_error + calc_state" where
  "process_node db g st n =
     (case g_attr g n of
        None \<Rightarrow> Inl (KeyError ''tech_id'')
      | Some node_data \<Rightarrow>
          (case db (attr_tech_id node_data) of
             None \<Rightarrow> Inl (ValueError_tech_not_found (attr_tech_id node_data))
           | Some tech \<Rightarrow>
               (case gather_inputs (streams st) n (predecessors g n) (objects st) of
                  (input_streams, h1) \<Rightarrow>
                    (case calculate_node tech (attr_parameters node_data) input_streams h1 of
                       Inl e \<Rightarrow> Inl e
                     | Inr (output_stream, res, h2) \<Rightarrow>
                         Inr \<lparr>streams =
                                foldl (\<lambda>s successor.
                                         AList.update (edge_key n successor) output_stream s)
                                  (streams st) (successors g n),
                              node_results =
                                AList.update n
                                  (AList.update ''category'' (Str (t_category tech))
                                    (AList.update ''tech_name'' (Str (t_name tech))
                                      (AList.update ''tech_id'' (Str (attr_tech_id node_data)) res)))
                                  (node_results st),
                              objects = h2\<rparr>))))"

fun process_nodes :: "tech_db \<Rightarrow> DiGraph \<Rightarrow> calc_state \<Rightarrow> string list \<Rightarrow> py_error + calc_state" where
  "process_nodes db g st [] = Inr st"
| "process_nodes db g st (n # ns) =
     (case process_node db g st n of
        Inl e \<Rightarrow> Inl e
      | Inr st' \<Rightarrow> process_nodes db g st' ns)"

text \<open>\<^verbatim>\<open>_aggregate_results\<close>. Adding a string to a number is a \<^verbatim>\<open>TypeError\<close>.\<close>

definition results_get :: "results \<Rightarrow> string \<Rightarrow> py_error + real" where
  "results_get r k =
     (case map_of r k of
        None \<Rightarrow> Inr 0
      | Some (Num x) \<Rightarrow> Inr x
      | Some (Str s) \<Rightarrow> Inl TypeError)"

fun total_of :: "string \<Rightarrow> (string \<times> results) list \<Rightarrow> real \<Rightarrow> py_error + real" where
  "total_of k [] acc = Inr acc"
| "total_of k ((n, r) # rest) acc =
     (case results_get r k of
        Inl e \<Rightarrow> Inl e
      | Inr x \<Rightarrow> total_of k rest (acc + x))"

record CalculationResult =
  r_success :: bool
  r_summary :: results
  r_node_details :: "(string \<times> results) list"
  r_streams :: "(string \<times> StreamProperties) list"

definition aggregate_results ::
  "(string \<times> results) list \<Rightarrow> (string \<times> ref) list \<Rightarrow> heap \<Rightarrow> py_error + CalculationResult" where
  "aggregate_results nres strs h =
     (case total_of ''biogas_nm3_day'' nres 0 of Inl e \<Rightarrow> Inl e | Inr total_biogas \<Rightarrow>
      case total_of ''methane_nm3_day'' nres 0 of Inl e \<Rightarrow> Inl e | Inr total_methane \<Rightarrow>
      case total_of ''biomethane_nm3_day'' nres 0 of Inl e \<Rightarrow> Inl e | Inr total_biomethane \<Rightarrow>
      case total_of ''electricity_kwh_day'' nres 0 of Inl e \<Rightarrow> Inl e | Inr total_electricity \<Rightarrow>
      case total_of ''thermal_kwh_day'' nres 0 of Inl e \<Rightarrow> Inl e | Inr total_thermal \<Rightarrow>
      case total_of ''annual_revenue_brl'' nres 0 of Inl e \<Rightarrow> Inl e | Inr total_revenue \<Rightarrow>
        (let emissions_avoided_daily = (total_methane + total_biomethane) * 2.75;
             emissions_avoided_annual = emissions_avoided_daily * 330
         in Inr \<lparr>r_success = True,
                 r_summary =
                   [(''biogas_nm3_day'', Num (py_round total_biogas 0)),
                    (''methane_nm3_day'', Num (py_round total_methane 0)),
                    (''biomethane_nm3_day'', Num (py_round total_biomethane 0)),
                    (''electricity_kwh_day'', Num (py_round total_electricity 0)),
                    (''electricity_mwh_year'', Num (py_round (total_electricity * 330 / 1000) 0)),
                    (''thermal_kwh_day'', Num (py_round total_thermal 0)),
                    (''annual_revenue_brl'', Num (py_round total_revenue 0)),
                    (''emissions_avoided_kg_day'', Num (py_round emissions_avoided_daily 0)),
                    (''emissions_avoided_ton_year'',
                       Num (py_round (emissions_avoided_annual / 1000) 1))],
                 r_node_details = nres,
                 r_streams = map (\<lambda>(k, v). (k, h ! v)) strs\<rparr>))"

text \<open>
  The six totals are accumulated in one pass of the source's loop; a \<^verbatim>\<open>TypeError\<close> in
  any of them aborts the call, so computing them one key after the other gives the same
  result. \<^verbatim>\<open>NetworkXUnfeasible\<close> is not a \<^verbatim>\<open>NetworkXError\<close>, so the \<^verbatim>\<open>except\<close> clause around
  the sort lets every error of the sort through.
\<close>

definition calculate_route ::
  "tech_db \<Rightarrow> NodeInput list \<Rightarrow> EdgeInput list \<Rightarrow> py_error + CalculationResult" where
  "calculate_route db nodes edges =
     (case build_graph nodes edges of
        Inl e \<Rightarrow> Inl e
      | Inr g \<Rightarrow>
          (case topological_sort g of
             Inl e \<Rightarrow> Inl e
           | Inr calc_order \<Rightarrow>
               (case process_nodes db g initial_state calc_order of
                  Inl e \<Rightarrow> Inl e
                | Inr st \<Rightarrow> aggregate_results (node_results st) (streams st) (objects st))))"

subsection \<open>\<^verbatim>\<open>validate_route\<close>\<close>







subsection \<open>Observers used in the statements\<close>

definition out_stream :: "rule_result \<Rightarrow> StreamProperties option" where
  "out_stream res = (case res of Inl e \<Rightarrow> None | Inr (r, m, h) \<Rightarrow> Some (h ! r))"

definition out_results :: "rule_result \<Rightarrow> results option" where
  "out_results res = (case res of Inl e \<Rightarrow> None | Inr (r, m, h) \<Rightarrow> Some m)"





text \<open>
  The graphs \<^verbatim>\<open>build_graph\<close> makes: no node and no edge twice, every endpoint a node.
\<close>

definition wf_graph :: "DiGraph \<Rightarrow> bool" where
  "wf_graph g \<longleftrightarrow>
     distinct (g_nodes g) \<and> distinct (g_edges g) \<and>
     (\<forall>e \<in> set (g_edges g). fst e \<in> set (g_nodes g) \<and> snd e \<in> set (g_nodes g))"

text \<open>
  A visiting order in which every node comes after all of its predecessors: whenever the
  order splits as \<open>ys @ v # zs\<close>, the predecessors of \<open>v\<close> are among \<open>ys\<close>.
\<close>

definition after_predecessors :: "DiGraph \<Rightarrow> string list \<Rightarrow> bool" where
  "after_predecessors g order \<longleftrightarrow>
     (\<forall>ys v zs. order = ys @ v # zs \<longrightarrow> set (predecessors g v) \<subseteq> set ys)"

text \<open>
  The state of Kahn's algorithm between two nodes: \<open>P\<close> are the nodes whose outgoing edges
  have been counted off, \<open>Z\<close> the nodes found ready and not yet counted off, and the
  dictionary holds every other node with the number of its predecessors outside \<open>P\<close>.
\<close>

definition unprocessed_preds :: "DiGraph \<Rightarrow> string set \<Rightarrow> string \<Rightarrow> string set" where
  "unprocessed_preds g P v = {u. (u, v) \<in> set (g_edges g) \<and> u \<notin> P}"

definition kahn_inv :: "DiGraph \<Rightarrow> indegree_map \<Rightarrow> string set \<Rightarrow> string set \<Rightarrow> bool" where
  "kahn_inv g im Z P \<longleftrightarrow>
     distinct (map fst im) \<and>
     fst ` set im \<inter> (Z \<union> P) = {} \<and> Z \<inter> P = {} \<and>
     fst ` set im \<union> Z \<union> P = set (g_nodes g) \<and>
     (\<forall>v d. map_of im v = Some d \<longrightarrow> d = int (card (unprocessed_preds g P v)) \<and> 0 < d) \<and>
     (\<forall>v \<in> Z \<union> P. unprocessed_preds g P v = {})"

text \<open>
  The edges of the request as pairs, and the graph \<^verbatim>\<open>build_graph\<close> constructs before it
  tests for cycles.
\<close>

definition edge_pairs :: "EdgeInput list \<Rightarrow> (string \<times> string) list" where
  "edge_pairs edges = map (\<lambda>e. (source e, target e)) edges"

definition graph_of :: "NodeInput list \<Rightarrow> EdgeInput list \<Rightarrow> DiGraph" where
  "graph_of nodes edges =
     foldl (\<lambda>g edge. add_edge g (source edge) (target edge))
       (foldl (\<lambda>g node. add_node g (node_id node)
                 \<lparr>attr_tech_id = tech_id node, attr_parameters = parameters node\<rparr>)
          empty_graph nodes)
       edges"



subsection \<open>The technology database (excerpt)\<close>

text \<open>
  The entries of \<^verbatim>\<open>TECH_DATABASE\<close> (\<^verbatim>\<open>data/technologies.py\<close>) used as concrete inputs
  below; names are the UTF-8 bytes of the source's strings.
\<close>

definition bagasse :: technology where
  "bagasse =
     \<lparr>t_id = ''bagasse'', t_category = ''feedstock'',
      t_name = ''Baga'' @ [CHR 0xC3, CHR 0xA7] @ ''o de Cana'',
      t_accepts = [], t_outputs = [''solid_biomass''],
      t_parameters = [\<lparr>p_key = ''quantity'', p_default_value = 100\<rparr>],
      t_defaults = [''lhv'' \<mapsto> 7.5, ''moisture'' \<mapsto> 50, ''vs'' \<mapsto> 85, ''density'' \<mapsto> 150]\<rparr>"

definition vinasse :: technology where
  "vinasse =
     \<lparr>t_id = ''vinasse'', t_category = ''feedstock'',
      t_name = ''Vinha'' @ [CHR 0xC3, CHR 0xA7] @ ''a'',
      t_accepts = [], t_outputs = [''liquid_organic''],
      t_parameters = [\<lparr>p_key = ''quantity'', p_default_value = 1000\<rparr>],
      t_defaults = [''cod'' \<mapsto> 25, ''bod'' \<mapsto> 15, ''ph'' \<mapsto> 4.5, ''temperature'' \<mapsto> 80]\<rparr>"

definition thermal_hydrolysis :: technology where
  "thermal_hydrolysis =
     \<lparr>t_id = ''thermal_hydrolysis'', t_category = ''pretreatment'',
      t_name = ''Hidr'' @ [CHR 0xC3, CHR 0xB3] @ ''lise T'' @ [CHR 0xC3, CHR 0xA9] @ ''rmica'',
      t_accepts = [''solid_biomass''], t_outputs = [''treated_solid''],
      t_parameters = [\<lparr>p_key = ''temperature'', p_default_value = 170\<rparr>],
      t_defaults = [''biogas_increase'' \<mapsto> 25, ''energy_use'' \<mapsto> 0.5,
                    ''retention_time'' \<mapsto> 30]\<rparr>"

definition uasb :: technology where
  "uasb =
     \<lparr>t_id = ''uasb'', t_category = ''digester'',
      t_name = ''UASB (Reator Anaer'' @ [CHR 0xC3, CHR 0xB3] @ ''bio de Manta de Lodo)'',
      t_accepts = [''liquid_organic''], t_outputs = [''biogas'', ''digestate''],
      t_parameters = [\<lparr>p_key = ''efficiency'', p_default_value = 80\<rparr>,
                      \<lparr>p_key = ''hrt'', p_default_value = 1.0\<rparr>],
      t_defaults = [''efficiency'' \<mapsto> 0.80, ''hrt'' \<mapsto> 1.0, ''olr'' \<mapsto> 15.0,
                    ''temperature'' \<mapsto> 35, ''ch4_content'' \<mapsto> 0.65]\<rparr>"

definition psa :: technology where
  "psa =
     \<lparr>t_id = ''psa'', t_category = ''upgrading'',
      t_name = ''PSA (Pressure Swing Adsorption)'',
      t_accepts = [''biogas''], t_outputs = [''biomethane'', ''co2''],
      t_parameters = [\<lparr>p_key = ''recovery'', p_default_value = 98\<rparr>],
      t_defaults = [''recovery'' \<mapsto> 0.98, ''energy_use'' \<mapsto> 0.25, ''ch4_purity'' \<mapsto> 0.98,
                    ''capex'' \<mapsto> 1200]\<rparr>"

definition ice_cogen :: technology where
  "ice_cogen =
     \<lparr>t_id = ''ice_cogen'', t_category = ''enduse'',
      t_name = ''Motor Ciclo Otto (Cogera'' @ [CHR 0xC3, CHR 0xA7, CHR 0xC3, CHR 0xA3] @ ''o)'',
      t_accepts = [''biogas'', ''biomethane''], t_outputs = [''electricity'', ''heat''],
      t_parameters = [\<lparr>p_key = ''elec_efficiency'', p_default_value = 40\<rparr>,
                      \<lparr>p_key = ''therm_efficiency'', p_default_value = 45\<rparr>,
                      \<lparr>p_key = ''elec_price'', p_default_value = 350\<rparr>],
      t_defaults = [''elec_eff'' \<mapsto> 0.40, ''therm_eff'' \<mapsto> 0.45, ''capex'' \<mapsto> 1500,
                    ''opex'' \<mapsto> 0.015]\<rparr>"

definition boiler :: technology where
  "boiler =
     \<lparr>t_id = ''boiler'', t_category = ''enduse'', t_name = ''Caldeira'',
      t_accepts = [''biogas'', ''biomethane''], t_outputs = [''heat''],
      t_parameters = [\<lparr>p_key = ''therm_efficiency'', p_default_value = 85\<rparr>],
      t_defaults = [''therm_eff'' \<mapsto> 0.85, ''capex'' \<mapsto> 200, ''steam_pressure'' \<mapsto> 21]\<rparr>"

definition flare :: technology where
  "flare =
     \<lparr>t_id = ''flare'', t_category = ''enduse'', t_name = ''Flare (Queima)'',
      t_accepts = [''biogas'', ''biomethane''], t_outputs = [''emissions_reduction''],
      t_parameters = [],
      t_defaults = [''destruction_efficiency'' \<mapsto> 0.99, ''capex'' \<mapsto> 50,
                    ''co2_reduction'' \<mapsto> 21]\<rparr>"

definition TECH_DATABASE :: tech_db where
  "TECH_DATABASE =
     [''bagasse'' \<mapsto> bagasse, ''vinasse'' \<mapsto> vinasse,
      ''thermal_hydrolysis'' \<mapsto> thermal_hydrolysis, ''uasb'' \<mapsto> uasb, ''psa'' \<mapsto> psa,
      ''ice_cogen'' \<mapsto> ice_cogen, ''boiler'' \<mapsto> boiler, ''flare'' \<mapsto> flare]"

section \<open>Properties of the stream algebra and of the category rules\<close>

subsection \<open>\<^verbatim>\<open>_sum_inputs\<close> on the store\<close>

text \<open>Summing only allocates: every object that existed before is still there, unchanged.\<close>

lemma sum_loop_ext: "\<exists>ext. snd (sum_loop r rest h) = h @ ext"
proof (induction rest arbitrary: r h)
  case Nil show ?case by simp
next
  case (Cons a rest)
  obtain ext where "snd (sum_loop (length h) rest (h @ [StreamProperties_add (h ! r) (h ! a)])) = (h @ [StreamProperties_add (h ! r) (h ! a)]) @ ext"
    using Cons.IH by blast
  then show ?case by (simp add: new_stream_def)
qed

lemma sum_inputs_ext: "\<exists>ext. snd (sum_inputs inputs h) = h @ ext"
  using sum_loop_ext by (cases inputs) (auto simp: sum_inputs_def new_stream_def)





subsection \<open>C7: the stream sum on the flow and content fields\<close>



subsection \<open>C9: a liquid feedstock\<close>

text \<open>
  Claim C9. A feedstock node whose technology id is a liquid one (\<^verbatim>\<open>vinasse\<close> or
  \<^verbatim>\<open>wash_water\<close>), with quantity 1000 and COD coefficient 25 (the profile's value or the
  built-in default), emits a new stream with COD 25000 and volatile solids 17500, whatever
  its inbound streams are.
\<close>

theorem liquid_feedstock_cod_vs:
  assumes "t_category tech = ''feedstock''"
      and "t_id tech = ''vinasse'' \<or> t_id tech = ''wash_water''"
      and "dict_get params ''quantity''
             (case t_parameters tech of [] \<Rightarrow> 100 | p # _ \<Rightarrow> p_default_value p) = 1000"
      and "dict_get (t_defaults tech) ''cod'' 25 = 25"
  shows "\<exists>res. calculate_node tech params inputs h =
           Inr (length h, res,
                h @ [StreamProperties_default\<lparr>volume_flow := 1000, cod := 25000, vs_content := 17500\<rparr>])"
  using assms
  by (auto simp: calculate_node_def calc_feedstock_def new_stream_def Let_def)

theorem liquid_feedstock_cod_vs_witness:
  "t_category vinasse = ''feedstock'' \<and> t_id vinasse = ''vinasse''
   \<and> out_stream (calculate_node vinasse Map.empty [0] [StreamProperties_default\<lparr>cod := 7\<rparr>]) =
       Some (StreamProperties_default\<lparr>volume_flow := 1000, cod := 25000, vs_content := 17500\<rparr>)
   \<and> out_stream (calculate_node vinasse [''quantity'' \<mapsto> 1000] [] []) =
       Some (StreamProperties_default\<lparr>volume_flow := 1000, cod := 25000, vs_content := 17500\<rparr>)"
  using liquid_feedstock_cod_vs [of vinasse Map.empty "[0]" "[StreamProperties_default\<lparr>cod := 7\<rparr>]"]
        liquid_feedstock_cod_vs [of vinasse "[''quantity'' \<mapsto> 1000]" "[]" "[]"]
  by (auto simp: vinasse_def dict_get_def out_stream_def)

subsection \<open>C2: the digester's liquid pathway\<close>



subsection \<open>C5: the stream an end-use node emits\<close>

text \<open>
  Claim C5 as stated lists temperature and pressure among the fields that are zero. The
  stream of an end-use node is \<^verbatim>\<open>StreamProperties()\<close>, whose temperature is 35 and whose
  pressure is 1: at the \<^verbatim>\<open>ice_cogen\<close> node with no inputs the emitted stream is not the
  all-zero stream.
\<close>

theorem enduse_stream_not_all_zero:
  "out_stream (calculate_node ice_cogen Map.empty [] []) \<noteq>
     Some \<lparr>mass_flow = 0, volume_flow = 0, energy_content = 0, methane_content = 0,
           cod = 0, vs_content = 0, temperature = 0, pressure = 0\<rparr>
   \<and> map_option temperature (out_stream (calculate_node ice_cogen Map.empty [] [])) = Some 35
   \<and> map_option pressure (out_stream (calculate_node ice_cogen Map.empty [] [])) = Some 1"
  by (simp add: calculate_node_def calc_enduse_def ice_cogen_def out_stream_def sum_inputs_def
      new_stream_def StreamProperties_default_def Let_def)

text \<open>
  Claim C5, amended. Every end-use node emits a newly built default stream: mass flow,
  volume flow, energy content, methane content, COD and volatile solids are zero,
  temperature is 35 and pressure is 1, whatever metrics the node computes; the rule never
  fails.
\<close>

theorem enduse_emits_default_stream:
  assumes "t_category tech = ''enduse''"
  shows "\<exists>res. calculate_node tech params inputs h =
           Inr (length (snd (sum_inputs inputs h)), res,
                snd (sum_inputs inputs h) @
                  [\<lparr>mass_flow = 0, volume_flow = 0, energy_content = 0, methane_content = 0,
                    cod = 0, vs_content = 0, temperature = 35, pressure = 1\<rparr>])"
  using assms
  by (simp add: calculate_node_def calc_enduse_def new_stream_def Let_def split_beta
      StreamProperties_default_def)

theorem enduse_emits_default_stream_witness:
  "t_category ice_cogen = ''enduse''
   \<and> out_stream (calculate_node ice_cogen Map.empty [0]
                   [StreamProperties_default\<lparr>methane_content := 7000\<rparr>]) =
       Some \<lparr>mass_flow = 0, volume_flow = 0, energy_content = 0, methane_content = 0,
             cod = 0, vs_content = 0, temperature = 35, pressure = 1\<rparr>
   \<and> map_option (\<lambda>m. map_of m ''electricity_kwh_day'')
        (out_results (calculate_node ice_cogen Map.empty [0]
                       [StreamProperties_default\<lparr>methane_content := 7000\<rparr>])) =
       Some (Some (Num 27916))"
proof -
  have c: "t_category ice_cogen = ''enduse''" by (simp add: ice_cogen_def)
  have m: "map_option (\<lambda>m. map_of m ''electricity_kwh_day'')
        (out_results (calculate_node ice_cogen Map.empty [0]
                       [StreamProperties_default\<lparr>methane_content := 7000\<rparr>])) =
       Some (Some (Num 27916))"
    by (simp add: calculate_node_def calc_enduse_def ice_cogen_def out_results_def sum_inputs_def
        new_stream_def dict_get_def py_round_def Let_def)
  from enduse_emits_default_stream [OF c, of Map.empty "[0]" "[StreamProperties_default\<lparr>methane_content := 7000\<rparr>]"]
  show ?thesis using c m by (auto simp: out_stream_def sum_inputs_def)
qed
subsection \<open>C3: percentages given for ratio parameters\<close>




section \<open>Properties of the graph and of the traversal\<close>

subsection \<open>Kahn's algorithm keeps its invariant\<close>


lemma set_successors: "set (successors g n) = {v. (n, v) \<in> set (g_edges g)}"
  by (force simp: successors_def)

lemma set_predecessors: "set (predecessors g n) = {u. (u, n) \<in> set (g_edges g)}"
  by (force simp: predecessors_def)

lemma distinct_successors: "distinct (g_edges g) \<Longrightarrow> distinct (successors g n)"
  by (auto simp: successors_def distinct_map inj_on_def intro: prod_eqI)

lemma distinct_predecessors: "distinct (g_edges g) \<Longrightarrow> distinct (predecessors g n)"
  by (auto simp: predecessors_def distinct_map inj_on_def intro: prod_eqI)

lemma finite_unprocessed: "finite (unprocessed_preds g P v)"
proof -
  have "unprocessed_preds g P v \<subseteq> fst ` set (g_edges g)"
    by (force simp: unprocessed_preds_def)
  then show ?thesis by (rule finite_subset) simp
qed

lemma keys_map_of: "distinct (map fst al) \<Longrightarrow> (k \<in> fst ` set al) = (\<exists>d. map_of al k = Some d)"
  by (metis domD domI dom_map_of_conv_image_fst)

lemma relax_children_char:
  assumes "distinct cs" and "distinct (map fst im)" and "\<forall>c\<in>set cs. c \<in> fst ` set im"
  shows "\<exists>im'. relax_children (im, z) cs = Inr (im', z @ filter (\<lambda>c. map_of im c = Some 1) cs)
           \<and> distinct (map fst im')
           \<and> (\<forall>v. map_of im' v =
                 (if v \<in> set cs
                  then (case map_of im v of None \<Rightarrow> None
                        | Some d \<Rightarrow> if d = 1 then None else Some (d - 1))
                  else map_of im v))"
  using assms
proof (induction cs arbitrary: im z)
  case Nil
  then show ?case by simp
next
  case (Cons c cs)
  from Cons.prems obtain d where d: "map_of im c = Some d"
    using keys_map_of [of im c] by auto
  have cnot: "c \<notin> set cs" and dcs: "distinct cs" using Cons.prems(1) by auto
  define im1 where "im1 = (if d = 1 then AList.delete c im else AList.update c (d - 1) im)"
  define z1 where "z1 = (if d = 1 then z @ [c] else z)"
  have step: "relax_child (im, z) c = Inr (im1, z1)"
    using d by (auto simp: im1_def z1_def)
  have dist1: "distinct (map fst im1)"
    using Cons.prems(2) by (simp add: im1_def AList.distinct_delete AList.distinct_update)
  have same: "\<And>v. v \<noteq> c \<Longrightarrow> map_of im1 v = map_of im v"
    by (simp add: im1_def AList.update_conv' AList.delete_conv')
  have atc: "map_of im1 c = (if d = 1 then None else Some (d - 1))"
    by (simp add: im1_def AList.update_conv' AList.delete_conv')
  have keys1: "\<forall>c'\<in>set cs. c' \<in> fst ` set im1"
  proof
    fix c' assume c': "c' \<in> set cs"
    then have "c' \<noteq> c" using cnot by auto
    moreover from c' Cons.prems have "\<exists>d. map_of im c' = Some d"
      using keys_map_of [of im c'] by auto
    ultimately have "\<exists>d. map_of im1 c' = Some d" using same by simp
    then show "c' \<in> fst ` set im1" using keys_map_of [OF dist1, of c'] by simp
  qed
  from Cons.IH [OF dcs dist1 keys1, of z1] obtain im' where
    r: "relax_children (im1, z1) cs = Inr (im', z1 @ filter (\<lambda>c. map_of im1 c = Some 1) cs)"
    and di: "distinct (map fst im')"
    and ch: "\<forall>v. map_of im' v =
                 (if v \<in> set cs
                  then (case map_of im1 v of None \<Rightarrow> None
                        | Some d \<Rightarrow> if d = 1 then None else Some (d - 1))
                  else map_of im1 v)"
    by blast
  have filt: "filter (\<lambda>c. map_of im1 c = Some 1) cs = filter (\<lambda>c. map_of im c = Some 1) cs"
  proof (rule filter_cong [OF refl])
    fix x assume "x \<in> set cs"
    then have "x \<noteq> c" using cnot by auto
    then show "(map_of im1 x = Some 1) = (map_of im x = Some 1)" using same by simp
  qed
  have zz: "z1 @ filter (\<lambda>c. map_of im c = Some 1) cs
            = z @ filter (\<lambda>c. map_of im c = Some 1) (c # cs)"
    using d by (simp add: z1_def)
  have "relax_children (im, z) (c # cs) = Inr (im', z @ filter (\<lambda>c. map_of im c = Some 1) (c # cs))"
    using step r filt zz by simp
  moreover have "\<forall>v. map_of im' v =
                 (if v \<in> set (c # cs)
                  then (case map_of im v of None \<Rightarrow> None
                        | Some d \<Rightarrow> if d = 1 then None else Some (d - 1))
                  else map_of im v)"
  proof
    fix v
    show "map_of im' v =
                 (if v \<in> set (c # cs)
                  then (case map_of im v of None \<Rightarrow> None
                        | Some d \<Rightarrow> if d = 1 then None else Some (d - 1))
                  else map_of im v)"
    proof (cases "v = c")
      case True
      then show ?thesis using ch cnot atc d by simp
    next
      case False
      then show ?thesis using ch same by simp
    qed
  qed
  ultimately show ?case using di by blast
qed

lemma unprocessed_insert:
  "unprocessed_preds g (insert n P) v = unprocessed_preds g P v - {n}"
  by (auto simp: unprocessed_preds_def)

lemma relax_node:
  assumes wf: "wf_graph g" and inv: "kahn_inv g im Z P" and n: "n \<in> Z"
  shows "\<exists>im' new. relax_children (im, z) (successors g n) = Inr (im', z @ new)
           \<and> distinct new \<and> set new \<inter> (Z \<union> P) = {}
           \<and> kahn_inv g im' (Z - {n} \<union> set new) (insert n P)"
proof -
  let ?cs = "successors g n"
  let ?U = "unprocessed_preds g P"
  have dim: "distinct (map fst im)" and disj: "fst ` set im \<inter> (Z \<union> P) = {}"
    and zp: "Z \<inter> P = {}" and cover: "fst ` set im \<union> Z \<union> P = set (g_nodes g)"
    and cnt: "\<And>v d. map_of im v = Some d \<Longrightarrow> d = int (card (?U v)) \<and> 0 < d"
    and ready: "\<And>v. v \<in> Z \<union> P \<Longrightarrow> ?U v = {}"
    using inv by (auto simp: kahn_inv_def)
  have nP: "n \<notin> P" using n zp by auto
  have dcs: "distinct ?cs" using wf by (simp add: wf_graph_def distinct_successors)
  have child_U: "\<And>c. c \<in> set ?cs \<Longrightarrow> n \<in> ?U c"
    using nP by (auto simp: set_successors unprocessed_preds_def)
  have keys: "\<forall>c\<in>set ?cs. c \<in> fst ` set im"
  proof
    fix c assume c: "c \<in> set ?cs"
    then have "?U c \<noteq> {}" using child_U by auto
    then have "c \<notin> Z \<union> P" using ready by auto
    moreover have "c \<in> set (g_nodes g)"
      using c wf by (force simp: set_successors wf_graph_def)
    ultimately show "c \<in> fst ` set im" using cover by auto
  qed
  define new where "new = filter (\<lambda>c. map_of im c = Some 1) ?cs"
  from relax_children_char [OF dcs dim keys, of z] obtain im' where
    r: "relax_children (im, z) ?cs = Inr (im', z @ new)"
    and di: "distinct (map fst im')"
    and ch: "\<And>v. map_of im' v =
                 (if v \<in> set ?cs
                  then (case map_of im v of None \<Rightarrow> None
                        | Some d \<Rightarrow> if d = 1 then None else Some (d - 1))
                  else map_of im v)"
    unfolding new_def by blast
  have dnew: "distinct new" using dcs by (simp add: new_def)
  have new_keys: "set new \<subseteq> fst ` set im" using keys by (auto simp: new_def)
  have new_disj: "set new \<inter> (Z \<union> P) = {}" using new_keys disj by auto
  have keys': "fst ` set im' = fst ` set im - set new"
  proof (rule set_eqI)
    fix v
    have "(v \<in> fst ` set im') = (\<exists>d. map_of im' v = Some d)" using keys_map_of [OF di] by simp
    also have "\<dots> = ((\<exists>d. map_of im v = Some d) \<and> v \<notin> set new)"
      by (auto simp: ch new_def split: option.splits if_splits)
    also have "\<dots> = (v \<in> fst ` set im - set new)" using keys_map_of [OF dim] by simp
    finally show "(v \<in> fst ` set im') = (v \<in> fst ` set im - set new)" .
  qed
  have nkeys: "n \<notin> fst ` set im" using n disj by auto
  have c1: "fst ` set im' \<inter> (Z - {n} \<union> set new \<union> insert n P) = {}"
    using keys' disj nkeys by auto
  have c2: "(Z - {n} \<union> set new) \<inter> insert n P = {}"
    using zp new_disj new_keys nkeys by auto
  have c3: "fst ` set im' \<union> (Z - {n} \<union> set new) \<union> insert n P = set (g_nodes g)"
    using keys' cover n new_keys by auto
  have c4: "\<forall>v d. map_of im' v = Some d \<longrightarrow>
              d = int (card (unprocessed_preds g (insert n P) v)) \<and> 0 < d"
  proof (intro allI impI)
    fix v d assume vd: "map_of im' v = Some d"
    show "d = int (card (unprocessed_preds g (insert n P) v)) \<and> 0 < d"
    proof (cases "v \<in> set ?cs")
      case True
      with vd obtain d0 where d0: "map_of im v = Some d0" "d0 \<noteq> 1" "d = d0 - 1"
        by (auto simp: ch split: option.splits if_splits)
      from cnt [OF d0(1)] have e: "d0 = int (card (?U v))" "0 < d0" by auto
      have "card (?U v - {n}) = card (?U v) - 1"
        using child_U [OF True] finite_unprocessed by (simp add: card_Diff_singleton)
      moreover have "0 < card (?U v)" using e by auto
      ultimately have "int (card (?U v - {n})) = d0 - 1" using e by auto
      then show ?thesis using d0 e by (simp add: unprocessed_insert)
    next
      case False
      then have "map_of im v = Some d" using vd by (simp add: ch)
      moreover have "n \<notin> ?U v" using False by (auto simp: set_successors unprocessed_preds_def)
      ultimately show ?thesis using cnt [of v d] by (simp add: unprocessed_insert)
    qed
  qed
  have c5: "\<forall>v \<in> Z - {n} \<union> set new \<union> insert n P. unprocessed_preds g (insert n P) v = {}"
  proof
    fix v assume v: "v \<in> Z - {n} \<union> set new \<union> insert n P"
    show "unprocessed_preds g (insert n P) v = {}"
    proof (cases "v \<in> set new")
      case True
      then have m: "map_of im v = Some 1" and vc: "v \<in> set ?cs" by (auto simp: new_def)
      from cnt [OF m] have "card (?U v) = 1" by auto
      moreover have "n \<in> ?U v" using child_U [OF vc] .
      ultimately have "?U v = {n}" by (metis card_1_singletonE singletonD)
      then show ?thesis by (simp add: unprocessed_insert)
    next
      case False
      then have "v \<in> Z \<union> P" using v n by auto
      then show ?thesis using ready by (simp add: unprocessed_insert)
    qed
  qed
  have "kahn_inv g im' (Z - {n} \<union> set new) (insert n P)"
    unfolding kahn_inv_def using di c1 c2 c3 c4 c5 by blast
  with r dnew new_disj show ?thesis by blast
qed

lemma process_generation_inv:
  assumes "wf_graph g" and "kahn_inv g im (set pending \<union> set z) P" and "distinct (pending @ z)"
  shows "\<exists>im' z'. process_generation g (im, z) pending = Inr (im', z')
           \<and> distinct z' \<and> kahn_inv g im' (set z') (P \<union> set pending)"
  using assms
proof (induction pending arbitrary: im z P)
  case Nil
  then show ?case by simp
next
  case (Cons n rest)
  have nV: "n \<in> set (g_nodes g)" using Cons.prems(2) by (auto simp: kahn_inv_def)
  have nZ: "n \<in> set (n # rest) \<union> set z" by simp
  from relax_node [OF Cons.prems(1) Cons.prems(2) nZ, of z] obtain im1 new where
    r: "relax_children (im, z) (successors g n) = Inr (im1, z @ new)"
    and dn: "distinct new" and nd: "set new \<inter> (set (n # rest) \<union> set z \<union> P) = {}"
    and inv1: "kahn_inv g im1 (set (n # rest) \<union> set z - {n} \<union> set new) (insert n P)"
    by blast
  have "set (n # rest) \<union> set z - {n} \<union> set new = set rest \<union> set (z @ new)"
    using Cons.prems(3) by auto
  with inv1 have inv2: "kahn_inv g im1 (set rest \<union> set (z @ new)) (insert n P)" by simp
  have d2: "distinct (rest @ z @ new)" using Cons.prems(3) dn nd by auto
  from Cons.IH [OF Cons.prems(1) inv2 d2] obtain im' z' where
    "process_generation g (im1, z @ new) rest = Inr (im', z')"
    "distinct z'" "kahn_inv g im' (set z') (insert n P \<union> set rest)"
    by blast
  then show ?case using r nV by auto
qed

lemma after_predecessors_append:
  assumes "after_predecessors g out"
    and "\<forall>v\<in>set gen. set (predecessors g v) \<subseteq> set out"
  shows "after_predecessors g (out @ gen)"
  unfolding after_predecessors_def
proof (intro allI impI)
  fix ys v zs assume eq: "out @ gen = ys @ v # zs"
  then consider us where "out = ys @ us" "us @ gen = v # zs"
    | us where "out @ us = ys" "gen = us @ v # zs"
    by (auto simp: append_eq_append_conv2)
  then show "set (predecessors g v) \<subseteq> set ys"
  proof cases
    case 1
    show ?thesis
    proof (cases us)
      case Nil
      then show ?thesis using 1 assms(2) by auto
    next
      case (Cons a us')
      then have "out = ys @ v # us'" using 1 by auto
      then show ?thesis using assms(1) by (auto simp: after_predecessors_def)
    qed
  next
    case 2
    then have "v \<in> set gen" "set out \<subseteq> set ys" by auto
    then show ?thesis using assms(2) by blast
  qed
qed

lemma generations_loop_inv:
  assumes "wf_graph g" and "kahn_inv g im (set zero) (set (concat gens))"
    and "distinct (concat gens @ zero)" and "after_predecessors g (concat gens)"
  shows "\<exists>gens' im'. generations_loop g im zero gens = Inr (gens', im')
           \<and> kahn_inv g im' {} (set (concat gens'))
           \<and> distinct (concat gens') \<and> after_predecessors g (concat gens')"
  using assms
proof (induction g im zero gens rule: generations_loop.induct)
  case (1 g im zero gens)
  show ?case
  proof (cases "zero = []")
    case True
    then show ?thesis using "1.prems" by simp
  next
    case False
    have inv0: "kahn_inv g im (set zero \<union> set []) (set (concat gens))"
      using "1.prems"(2) by simp
    have d0: "distinct (zero @ [])" using "1.prems"(3) by simp
    from process_generation_inv [OF "1.prems"(1) inv0 d0] obtain im' z' where
      pg: "process_generation g (im, []) zero = Inr (im', z')"
      and dz: "distinct z'"
      and inv1: "kahn_inv g im' (set z') (set (concat gens) \<union> set zero)"
      by blast
    have inv2: "kahn_inv g im' (set z') (set (concat (gens @ [zero])))"
      using inv1 by simp
    have "set z' \<inter> (set (concat gens) \<union> set zero) = {}"
      using inv1 by (auto simp: kahn_inv_def)
    then have d2: "distinct (concat (gens @ [zero]) @ z')"
      using "1.prems"(3) dz by auto
    have "\<forall>v\<in>set zero. set (predecessors g v) \<subseteq> set (concat gens)"
    proof
      fix v assume "v \<in> set zero"
      then have "unprocessed_preds g (set (concat gens)) v = {}"
        using "1.prems"(2) by (auto simp: kahn_inv_def)
      then show "set (predecessors g v) \<subseteq> set (concat gens)"
        by (auto simp: set_predecessors unprocessed_preds_def)
    qed
    then have a2: "after_predecessors g (concat (gens @ [zero]))"
      using after_predecessors_append [OF "1.prems"(4)] by simp
    from "1.IH" [OF False pg refl "1.prems"(1) inv2 d2 a2]
    show ?thesis using False pg by simp
  qed
qed

subsection \<open>\<^verbatim>\<open>topological_sort\<close> is correct\<close>

lemma in_degree_card:
  "distinct (g_edges g) \<Longrightarrow> in_degree g v = card (unprocessed_preds g {} v)"
proof -
  assume d: "distinct (g_edges g)"
  have "unprocessed_preds g {} v = set (predecessors g v)"
    by (auto simp: set_predecessors unprocessed_preds_def)
  then show ?thesis
    using distinct_predecessors [OF d, of v] by (simp add: in_degree_def distinct_card)
qed

lemma kahn_inv_initial:
  assumes wf: "wf_graph g"
  shows "kahn_inv g (map (\<lambda>v. (v, int (in_degree g v)))
                      (filter (\<lambda>v. in_degree g v > 0) (g_nodes g)))
                    (set (filter (\<lambda>v. in_degree g v = 0) (g_nodes g))) {}"
proof -
  let ?im = "map (\<lambda>v. (v, int (in_degree g v))) (filter (\<lambda>v. in_degree g v > 0) (g_nodes g))"
  have dn: "distinct (g_nodes g)" and de: "distinct (g_edges g)"
    using wf by (auto simp: wf_graph_def)
  have keys: "map fst ?im = filter (\<lambda>v. in_degree g v > 0) (g_nodes g)"
    by (simp add: comp_def)
  have d1: "distinct (map fst ?im)" using dn by (simp add: o_def)
  have k: "fst ` set ?im = {v \<in> set (g_nodes g). in_degree g v > 0}"
  proof -
    have "fst ` set ?im = set (map fst ?im)" by (simp only: set_map)
    also have "\<dots> = set (filter (\<lambda>v. in_degree g v > 0) (g_nodes g))" by (simp only: keys)
    also have "\<dots> = {v \<in> set (g_nodes g). in_degree g v > 0}" by simp
    finally show ?thesis .
  qed
  have m: "\<And>v d. map_of ?im v = Some d \<Longrightarrow> d = int (in_degree g v) \<and> 0 < in_degree g v"
  proof -
    fix v d assume "map_of ?im v = Some d"
    then have "(v, d) \<in> set ?im" by (rule map_of_SomeD)
    then show "d = int (in_degree g v) \<and> 0 < in_degree g v" by auto
  qed
  have c4: "\<forall>v d. map_of ?im v = Some d \<longrightarrow> d = int (card (unprocessed_preds g {} v)) \<and> 0 < d"
  proof (intro allI impI)
    fix v d assume a: "map_of ?im v = Some d"
    from m [OF a] have "d = int (in_degree g v)" "0 < in_degree g v" by auto
    then show "d = int (card (unprocessed_preds g {} v)) \<and> 0 < d"
      using in_degree_card [OF de, of v] by simp
  qed
  have c5: "\<forall>v \<in> set (filter (\<lambda>v. in_degree g v = 0) (g_nodes g)) \<union> {}.
              unprocessed_preds g {} v = {}"
  proof
    fix v assume "v \<in> set (filter (\<lambda>v. in_degree g v = 0) (g_nodes g)) \<union> {}"
    then have "in_degree g v = 0" by simp
    then have "card (unprocessed_preds g {} v) = 0" using in_degree_card [OF de, of v] by simp
    then show "unprocessed_preds g {} v = {}" using finite_unprocessed by simp
  qed
  have c1: "fst ` set ?im \<inter> (set (filter (\<lambda>v. in_degree g v = 0) (g_nodes g)) \<union> {}) = {}"
    unfolding k by auto
  have c2: "set (filter (\<lambda>v. in_degree g v = 0) (g_nodes g)) \<inter> {} = {}" by simp
  have c3: "fst ` set ?im \<union> set (filter (\<lambda>v. in_degree g v = 0) (g_nodes g)) \<union> {}
              = set (g_nodes g)"
    unfolding k by auto
  show ?thesis
    unfolding kahn_inv_def by (intro conjI d1 c1 c2 c3 c4 c5)
qed

text \<open>The loop never raises on a well-formed graph, and what it returns satisfies the invariant.\<close>

lemma generations_result:
  assumes wf: "wf_graph g"
  shows "\<exists>gens im.
           generations_loop g (map (\<lambda>v. (v, int (in_degree g v)))
                                (filter (\<lambda>v. in_degree g v > 0) (g_nodes g)))
                              (filter (\<lambda>v. in_degree g v = 0) (g_nodes g)) [] = Inr (gens, im)
           \<and> kahn_inv g im {} (set (concat gens))
           \<and> distinct (concat gens) \<and> after_predecessors g (concat gens)"
proof -
  have d: "distinct (concat [] @ filter (\<lambda>v. in_degree g v = 0) (g_nodes g))"
    using wf by (simp add: wf_graph_def)
  have a: "after_predecessors g (concat [])" by (simp add: after_predecessors_def)
  have i: "kahn_inv g (map (\<lambda>v. (v, int (in_degree g v)))
                      (filter (\<lambda>v. in_degree g v > 0) (g_nodes g)))
                    (set (filter (\<lambda>v. in_degree g v = 0) (g_nodes g))) (set (concat []))"
    using kahn_inv_initial [OF wf] by simp
  from generations_loop_inv [OF wf i d a] show ?thesis .
qed


lemma sorted_imp_acyclic:
  assumes top: "after_predecessors g order" and cover: "snd ` set (g_edges g) \<subseteq> set order"
  shows "acyclic (set (g_edges g))"
proof -
  define pos where "pos x = length (takeWhile (\<lambda>y. y \<noteq> x) order)" for x
  have "set (g_edges g) \<subseteq> measure pos"
  proof
    fix e assume e: "e \<in> set (g_edges g)"
    obtain u v where uv: "e = (u, v)" by (cases e)
    have "v \<in> set order" using e cover uv by force
    then obtain ys zs where sp: "order = ys @ v # zs" "v \<notin> set ys"
      by (auto dest: split_list_first)
    have "u \<in> set (predecessors g v)" using e uv by (simp add: set_predecessors)
    then have uy: "u \<in> set ys" using top sp(1) by (auto simp: after_predecessors_def)
    have "takeWhile (\<lambda>y. y \<noteq> v) (ys @ v # zs) = ys @ takeWhile (\<lambda>y. y \<noteq> v) (v # zs)"
      by (rule takeWhile_append2) (use sp(2) in auto)
    then have pv: "pos v = length ys"
      using sp(1) by (simp add: pos_def)
    have "takeWhile (\<lambda>y. y \<noteq> u) order = takeWhile (\<lambda>y. y \<noteq> u) ys"
      using uy sp(1) by (simp add: takeWhile_append1)
    then have pu: "pos u = length (takeWhile (\<lambda>y. y \<noteq> u) ys)" by (simp add: pos_def)
    have "length (takeWhile (\<lambda>y. y \<noteq> u) ys) < length ys"
    proof (rule ccontr)
      assume "\<not> length (takeWhile (\<lambda>y. y \<noteq> u) ys) < length ys"
      then have "length (takeWhile (\<lambda>y. y \<noteq> u) ys) = length ys"
        using length_takeWhile_le [of "\<lambda>y. y \<noteq> u" ys] by simp
      then have "takeWhile (\<lambda>y. y \<noteq> u) ys = ys"
        using takeWhile_eq_take [of "\<lambda>y. y \<noteq> u" ys] by simp
      then have "\<forall>x\<in>set ys. x \<noteq> u" by (simp only: takeWhile_eq_all_conv)
      then show False using uy by blast
    qed
    then have "pos u < pos v" using pu pv by simp
    then show "e \<in> measure pos" using uv by simp
  qed
  moreover have "acyclic (measure pos)" by (rule wf_acyclic) simp
  ultimately show ?thesis by (rule acyclic_subset [rotated])
qed


lemma topological_sort_cyclic:
  assumes wf: "wf_graph g" and cyc: "\<not> acyclic (set (g_edges g))"
  shows "topological_sort g = Inl NetworkXUnfeasible"
proof -
  from generations_result [OF wf] obtain gens im where
    gl: "generations_loop g (map (\<lambda>v. (v, int (in_degree g v)))
                                (filter (\<lambda>v. in_degree g v > 0) (g_nodes g)))
                              (filter (\<lambda>v. in_degree g v = 0) (g_nodes g)) [] = Inr (gens, im)"
    and inv: "kahn_inv g im {} (set (concat gens))"
    and a: "after_predecessors g (concat gens)"
    by blast
  have "im \<noteq> []"
  proof
    assume "im = []"
    then have "set (concat gens) = set (g_nodes g)" using inv by (simp add: kahn_inv_def)
    then have "snd ` set (g_edges g) \<subseteq> set (concat gens)"
      using wf by (auto simp: wf_graph_def)
    from sorted_imp_acyclic [OF a this] cyc show False by simp
  qed
  then show ?thesis using gl by (simp add: topological_sort_def topological_generations_def)
qed

subsection \<open>The graph that \<^verbatim>\<open>build_graph\<close> constructs\<close>

lemma set_insert_new [simp]: "set (insert_new x xs) = insert x (set xs)"
  by (auto simp: insert_new_def)

lemma distinct_insert_new [simp]: "distinct (insert_new x xs) = distinct xs"
  by (auto simp: insert_new_def)

lemma wf_add_node: "wf_graph g \<Longrightarrow> wf_graph (add_node g n a)"
  by (auto simp: wf_graph_def add_node_def)

lemma wf_add_edge: "wf_graph g \<Longrightarrow> wf_graph (add_edge g u v)"
  by (auto simp: wf_graph_def add_edge_def)

lemma add_nodes_props:
  "wf_graph g \<Longrightarrow>
   wf_graph (foldl (\<lambda>g node. add_node g (node_id node)
                 \<lparr>attr_tech_id = tech_id node, attr_parameters = parameters node\<rparr>) g nodes)
   \<and> g_edges (foldl (\<lambda>g node. add_node g (node_id node)
                 \<lparr>attr_tech_id = tech_id node, attr_parameters = parameters node\<rparr>) g nodes)
       = g_edges g
   \<and> set (g_nodes (foldl (\<lambda>g node. add_node g (node_id node)
                 \<lparr>attr_tech_id = tech_id node, attr_parameters = parameters node\<rparr>) g nodes))
       = set (g_nodes g) \<union> node_id ` set nodes
   \<and> dom (g_attr (foldl (\<lambda>g node. add_node g (node_id node)
                 \<lparr>attr_tech_id = tech_id node, attr_parameters = parameters node\<rparr>) g nodes))
       = dom (g_attr g) \<union> node_id ` set nodes"
proof (induction nodes arbitrary: g)
  case Nil
  then show ?case by simp
next
  case (Cons n ns)
  let ?g1 = "add_node g (node_id n) \<lparr>attr_tech_id = tech_id n, attr_parameters = parameters n\<rparr>"
  have "wf_graph ?g1" using Cons.prems by (rule wf_add_node)
  from Cons.IH [OF this] show ?case by (auto simp: add_node_def)
qed

lemma add_edges_props:
  "wf_graph g \<Longrightarrow>
   wf_graph (foldl (\<lambda>g edge. add_edge g (source edge) (target edge)) g edges)
   \<and> set (g_edges (foldl (\<lambda>g edge. add_edge g (source edge) (target edge)) g edges))
       = set (g_edges g) \<union> set (edge_pairs edges)
   \<and> set (g_nodes (foldl (\<lambda>g edge. add_edge g (source edge) (target edge)) g edges))
       = set (g_nodes g) \<union> source ` set edges \<union> target ` set edges
   \<and> g_attr (foldl (\<lambda>g edge. add_edge g (source edge) (target edge)) g edges) = g_attr g"
proof (induction edges arbitrary: g)
  case Nil
  then show ?case by (simp add: edge_pairs_def)
next
  case (Cons e es)
  let ?g1 = "add_edge g (source e) (target e)"
  have "wf_graph ?g1" using Cons.prems by (rule wf_add_edge)
  from Cons.IH [OF this] show ?case by (auto simp: add_edge_def edge_pairs_def)
qed

lemma wf_empty_graph: "wf_graph empty_graph"
  by (simp add: wf_graph_def empty_graph_def)

lemma graph_of_props:
  "wf_graph (graph_of nodes edges)"
  "set (g_edges (graph_of nodes edges)) = set (edge_pairs edges)"
  "set (g_nodes (graph_of nodes edges)) = node_id ` set nodes \<union> source ` set edges \<union> target ` set edges"
  "dom (g_attr (graph_of nodes edges)) = node_id ` set nodes"
proof -
  let ?g1 = "foldl (\<lambda>g node. add_node g (node_id node)
                 \<lparr>attr_tech_id = tech_id node, attr_parameters = parameters node\<rparr>)
          empty_graph nodes"
  from add_nodes_props [OF wf_empty_graph, of nodes]
  have n: "wf_graph ?g1" "g_edges ?g1 = []" "set (g_nodes ?g1) = node_id ` set nodes"
    "dom (g_attr ?g1) = node_id ` set nodes"
    by (simp_all add: empty_graph_def)
  from add_edges_props [OF n(1), of edges] n
  show "wf_graph (graph_of nodes edges)"
    "set (g_edges (graph_of nodes edges)) = set (edge_pairs edges)"
    "set (g_nodes (graph_of nodes edges)) = node_id ` set nodes \<union> source ` set edges \<union> target ` set edges"
    "dom (g_attr (graph_of nodes edges)) = node_id ` set nodes"
    by (simp_all add: graph_of_def)
qed

lemma build_graph_unfold:
  "build_graph nodes edges =
     (case is_directed_acyclic_graph (graph_of nodes edges) of
        Inl e \<Rightarrow> Inl e
      | Inr dag \<Rightarrow> if \<not> dag then Inl ValueError_cycles else Inr (graph_of nodes edges))"
  unfolding build_graph_def graph_of_def Let_def by (rule refl)


lemma build_graph_cyclic:
  assumes "\<not> acyclic (set (edge_pairs edges))"
  shows "build_graph nodes edges = Inl ValueError_cycles"
proof -
  have "\<not> acyclic (set (g_edges (graph_of nodes edges)))"
    using assms by (simp add: graph_of_props(2))
  from topological_sort_cyclic [OF graph_of_props(1) this]
  show ?thesis
    by (simp add: build_graph_unfold is_directed_acyclic_graph_def has_cycle_def)
qed

subsection \<open>The traversal loop\<close>







subsection \<open>C8: a cyclic route\<close>

text \<open>
  Claim C8. When the edges of the request contain a directed cycle, \<^verbatim>\<open>build_graph\<close> raises
  the cycle error (\<^verbatim>\<open>ValueError("Route contains cycles ...")\<close>), whatever the nodes and the
  database are, and \<^verbatim>\<open>calculate_route\<close> fails with that error from \<^verbatim>\<open>build_graph\<close>, before
  the traversal starts: no node result and no stream exists.
\<close>

theorem cyclic_route_rejected:
  assumes "\<not> acyclic (set (edge_pairs edges))"
  shows "build_graph nodes edges = Inl ValueError_cycles
         \<and> calculate_route db nodes edges = Inl ValueError_cycles"
  using build_graph_cyclic [OF assms, of nodes] by (simp add: calculate_route_def)

theorem cyclic_route_rejected_witness:
  "\<not> acyclic (set (edge_pairs [\<lparr>source = ''A'', target = ''B''\<rparr>, \<lparr>source = ''B'', target = ''A''\<rparr>]))
   \<and> build_graph [\<lparr>node_id = ''A'', tech_id = ''vinasse'', parameters = Map.empty\<rparr>,
                  \<lparr>node_id = ''B'', tech_id = ''uasb'', parameters = Map.empty\<rparr>]
        [\<lparr>source = ''A'', target = ''B''\<rparr>, \<lparr>source = ''B'', target = ''A''\<rparr>] = Inl ValueError_cycles
   \<and> calculate_route TECH_DATABASE
        [\<lparr>node_id = ''A'', tech_id = ''vinasse'', parameters = Map.empty\<rparr>,
         \<lparr>node_id = ''B'', tech_id = ''uasb'', parameters = Map.empty\<rparr>]
        [\<lparr>source = ''A'', target = ''B''\<rparr>, \<lparr>source = ''B'', target = ''A''\<rparr>] = Inl ValueError_cycles"
proof -
  have c: "\<not> acyclic (set (edge_pairs [\<lparr>source = ''A'', target = ''B''\<rparr>, \<lparr>source = ''B'', target = ''A''\<rparr>]))"
    by (auto simp: edge_pairs_def)
  from cyclic_route_rejected [OF c] c show ?thesis by blast
qed

subsection \<open>C1: the traversal order\<close>



subsection \<open>C4: an edge to a node that is not listed\<close>




subsection \<open>C10: validation collects the incompatible connections\<close>




subsection \<open>C6: do the rules leave their input streams alone?\<close>

text \<open>
  With no inbound stream or with several, the object \<^verbatim>\<open>_sum_inputs\<close> returns is new, so
  the write of the pretreatment rule lands in a new object and every object that existed
  before the call keeps its value.
\<close>

lemma sum_loop_fresh:
  "rest \<noteq> [] \<Longrightarrow> length h \<le> fst (sum_loop r rest h)"
proof (induction rest arbitrary: r h)
  case Nil
  then show ?case by simp
next
  case (Cons a rest)
  show ?case
  proof (cases rest)
    case Nil
    then show ?thesis by (simp add: new_stream_def)
  next
    case (Cons b rest')
    then have "rest \<noteq> []" by simp
    from Cons.IH [OF this, of "h @ [StreamProperties_add (h ! r) (h ! a)]" "length h"]
    show ?thesis by (simp add: new_stream_def)
  qed
qed

lemma calc_pretreatment_shape:
  "\<exists>m x. calc_pretreatment tech params inputs h =
           Inr (fst (sum_inputs inputs h), m,
                (snd (sum_inputs inputs h))[fst (sum_inputs inputs h) := x])"
  unfolding calc_pretreatment_def Let_def split_beta by (intro exI) (rule refl)

lemma pretreatment_keeps_inputs_unless_single:
  assumes "length inputs \<noteq> 1"
    and "calc_pretreatment tech params inputs h = Inr (r, m, h')"
  shows "take (length h) h' = h \<and> length h \<le> r"
proof -
  obtain c h1 where s: "sum_inputs inputs h = (c, h1)" by (cases "sum_inputs inputs h")
  obtain ext where e: "h1 = h @ ext" using sum_inputs_ext [of inputs h] s by auto
  have c: "length h \<le> c"
  proof (cases inputs)
    case Nil
    then show ?thesis using s by (auto simp: sum_inputs_def new_stream_def)
  next
    case (Cons a rest)
    then have "rest \<noteq> []" using assms(1) by auto
    from sum_loop_fresh [OF this, of h a] show ?thesis using s Cons by (simp add: sum_inputs_def)
  qed
  from calc_pretreatment_shape [of tech params inputs h] obtain m0 x where
    "calc_pretreatment tech params inputs h = Inr (c, m0, h1[c := x])"
    unfolding s by auto
  with assms(2) have hr: "h' = h1[c := x]" "r = c" by auto
  have "take (length h) ((h @ ext)[c := x]) = h"
    using c by (simp add: list_update_append)
  then show ?thesis using hr e c by simp
qed

text \<open>
  Claim C6 does not hold of the code. With exactly one inbound stream \<^verbatim>\<open>_sum_inputs\<close>
  returns \<^verbatim>\<open>inputs[0]\<close> itself, and the pretreatment rule multiplies \<^verbatim>\<open>vs_content\<close> of that
  object in place: the rule returns its input's address, with the stored value changed
  from 42500 to 53125. In a route where a bagasse feedstock feeds a thermal hydrolysis
  node and, directly, a digester, the one stream object of the feedstock is recorded
  under both edges; after the pretreatment node has run both entries read 53125, while
  the feedstock's own result says 42500, and the digester computes its biogas from the
  changed value (17000 instead of 0.40 * 0.80 * 42500 = 13600).
\<close>

theorem pretreatment_overwrites_recorded_stream:
  "map_sum id (\<lambda>(r, m, h). (r, map vs_content h))
     (calc_pretreatment thermal_hydrolysis Map.empty [0]
        [StreamProperties_default\<lparr>mass_flow := 100000, vs_content := 42500,
                                  energy_content := 375000\<rparr>]) = Inr (0, [53125])
   \<and> map_sum id (\<lambda>r. map (\<lambda>(k, s). (k, vs_content s)) (r_streams r))
       (calculate_route TECH_DATABASE
          [\<lparr>node_id = ''feed'', tech_id = ''bagasse'', parameters = Map.empty\<rparr>,
           \<lparr>node_id = ''pre'', tech_id = ''thermal_hydrolysis'', parameters = Map.empty\<rparr>,
           \<lparr>node_id = ''dig'', tech_id = ''uasb'', parameters = Map.empty\<rparr>]
          [\<lparr>source = ''feed'', target = ''pre''\<rparr>, \<lparr>source = ''feed'', target = ''dig''\<rparr>])
       = Inr [(''feed->pre'', 53125), (''feed->dig'', 53125)]
   \<and> map_sum id (\<lambda>r. map (\<lambda>n. map_option (\<lambda>m. (map_of m ''vs_available'', map_of m ''biogas_nm3_day''))
                                 (map_of (r_node_details r) n)) [''feed'', ''dig''])
       (calculate_route TECH_DATABASE
          [\<lparr>node_id = ''feed'', tech_id = ''bagasse'', parameters = Map.empty\<rparr>,
           \<lparr>node_id = ''pre'', tech_id = ''thermal_hydrolysis'', parameters = Map.empty\<rparr>,
           \<lparr>node_id = ''dig'', tech_id = ''uasb'', parameters = Map.empty\<rparr>]
          [\<lparr>source = ''feed'', target = ''pre''\<rparr>, \<lparr>source = ''feed'', target = ''dig''\<rparr>])
       = Inr [Some (Some (Num 42500), None), Some (None, Some (Num 17000))]"
  by code_simp

end
